theory Spec2Isabelle
  imports Main
begin

unbundle bit_operations_syntax

section \<open>JavaScript values used by the subnet engine\<close>

text \<open>
  The engine (\<^verbatim>\<open>SubnetEngine\<close>, file \<^verbatim>\<open>src/unnamed/part_002\<close>) works on JavaScript
  strings and numbers. Line numbers below are lines of that file.

  \<^item> A string is a \<^typ>\<open>string\<close>: a list of code units. Isabelle characters are 8 bits
    wide, so the model covers the texts whose code units are below 256.
  \<^item> A number that the engine computes with is an integer held in a double. It is
    modelled as an \<^typ>\<open>int\<close>; the model agrees with the code as long as every
    intermediate value stays below \<open>2 ^ 53\<close> in magnitude, which holds for octets in
    \<open>0..255\<close> and prefixes in \<open>0..32\<close>. \<^verbatim>\<open>NaN\<close>, which only \<^verbatim>\<open>parseInt\<close> produces,
    is \<open>None\<close> of \<^typ>\<open>int option\<close>.
  \<^item> The bitwise operators first convert their operands to 32 bits
    (\<^verbatim>\<open>ToInt32\<close>, \<^verbatim>\<open>ToUint32\<close>) and take the shift count modulo 32.
\<close>

definition ToUint32 :: "int \<Rightarrow> int" where
  "ToUint32 n = n mod 4294967296"

definition ToInt32 :: "int \<Rightarrow> int" where
  "ToInt32 n = (let m = n mod 4294967296 in if 2147483648 \<le> m then m - 4294967296 else m)"

text \<open>\<^verbatim>\<open>a << b\<close>: the left operand as a signed 32-bit value, shifted by the low five bits
  of the count, the result again a signed 32-bit value.\<close>

definition js_shl :: "int \<Rightarrow> int \<Rightarrow> int" where
  "js_shl a b = ToInt32 (ToInt32 a * 2 ^ nat (ToUint32 b mod 32))"

text \<open>\<^verbatim>\<open>a >>> b\<close>: the left operand as an unsigned 32-bit value, shifted right by the low
  five bits of the count, zero filled.\<close>

definition js_ushr :: "int \<Rightarrow> int \<Rightarrow> int" where
  "js_ushr a b = ToUint32 a div 2 ^ nat (ToUint32 b mod 32)"

text \<open>\<^verbatim>\<open>a & b\<close> and \<^verbatim>\<open>a | b\<close>: on the signed 32-bit values of the operands.\<close>

definition js_and :: "int \<Rightarrow> int \<Rightarrow> int" where
  "js_and a b = ToInt32 a AND ToInt32 b"

definition js_or :: "int \<Rightarrow> int \<Rightarrow> int" where
  "js_or a b = ToInt32 a OR ToInt32 b"

text \<open>\<^verbatim>\<open>ToInt32\<close> and \<^verbatim>\<open>ToUint32\<close> send \<^verbatim>\<open>NaN\<close> to \<open>0\<close>; \<open>nan0\<close> is that step for an
  operand of a bitwise operator.\<close>

definition nan0 :: "int option \<Rightarrow> int" where
  "nan0 x = (case x of None \<Rightarrow> 0 | Some n \<Rightarrow> n)"

text \<open>\<^verbatim>\<open>a + b\<close> on numbers: \<^verbatim>\<open>NaN\<close> when either operand is.\<close>

fun num_add :: "int option \<Rightarrow> int option \<Rightarrow> int option" where
  "num_add (Some a) (Some b) = Some (a + b)"
| "num_add _ _ = None"

text \<open>\<^verbatim>\<open>Math.pow(b, e)\<close> for an integer exponent \<open>e \<ge> 0\<close>, the only exponents the engine
  reaches with a valid prefix (\<open>32 - prefix\<close> and \<open>newPrefix - basePrefix\<close>).\<close>

definition Math_pow :: "int \<Rightarrow> int \<Rightarrow> int" where
  "Math_pow b e = b ^ nat e"

subsection \<open>Strings\<close>

text \<open>\<^verbatim>\<open>s.split(sep)\<close> for a separator of one character: the segments between the
  separators; the empty string gives one empty segment.\<close>

fun str_split :: "char \<Rightarrow> string \<Rightarrow> string list" where
  "str_split sep [] = [[]]"
| "str_split sep (c # cs) =
     (if c = sep then [] # str_split sep cs
      else (case str_split sep cs of
              [] \<Rightarrow> [[c]]
            | seg # segs \<Rightarrow> (c # seg) # segs))"

text \<open>\<^verbatim>\<open>xs.join(sep)\<close> on strings.\<close>

fun str_join :: "string \<Rightarrow> string list \<Rightarrow> string" where
  "str_join sep [] = []"
| "str_join sep [x] = x"
| "str_join sep (x # y # ys) = x @ sep @ str_join sep (y # ys)"

definition digit_char :: "nat \<Rightarrow> char" where
  "digit_char d = char_of (48 + d)"

fun nat_toString :: "nat \<Rightarrow> string" where
  "nat_toString n =
     (if n < 10 then [digit_char n] else nat_toString (n div 10) @ [digit_char (n mod 10)])"

declare nat_toString.simps [simp del]

text \<open>\<^verbatim>\<open>num.toString()\<close> of an integer: its decimal digits, with a minus sign
  below zero.\<close>

definition toString :: "int \<Rightarrow> string" where
  "toString n = (if n < 0 then CHR ''-'' # nat_toString (nat (- n)) else nat_toString (nat n))"

definition isWhiteSpace :: "char \<Rightarrow> bool" where
  "isWhiteSpace c = ((of_char c :: nat) \<in> {9, 10, 11, 12, 13, 32, 160})"

definition isDigit :: "char \<Rightarrow> bool" where
  "isDigit c = (48 \<le> (of_char c :: nat) \<and> (of_char c :: nat) \<le> 57)"

definition digit_val :: "char \<Rightarrow> nat" where
  "digit_val c = of_char c - 48"

definition digits_val :: "string \<Rightarrow> nat" where
  "digits_val ds = foldl (\<lambda>a c. 10 * a + digit_val c) 0 ds"

text \<open>\<^verbatim>\<open>parseInt(s, 10)\<close>: skip leading white space, read an optional sign, then the
  longest run of decimal digits; \<^verbatim>\<open>NaN\<close> when that run is empty.\<close>

definition parseInt :: "string \<Rightarrow> int option" where
  "parseInt s =
     (let s1 = dropWhile isWhiteSpace s;
          sign = (case s1 of c # r \<Rightarrow> if c = CHR ''-'' then - 1 else 1 | [] \<Rightarrow> (1 :: int));
          s2 = (case s1 of c # r \<Rightarrow> if c = CHR ''-'' \<or> c = CHR ''+'' then r else s1 | [] \<Rightarrow> s1);
          ds = takeWhile isDigit s2
      in if ds = [] then None else Some (sign * int (digits_val ds)))"

section \<open>The subnet engine\<close>

text \<open>\<^verbatim>\<open>isValidIP\<close> (lines 22 to 30). \<^verbatim>\<open>NaN >= 0\<close> is false.\<close>

definition isValidIP :: "string \<Rightarrow> bool" where
  "isValidIP ip =
     (let octets = str_split CHR ''.'' ip
      in if length octets \<noteq> 4 then False
         else list_all (\<lambda>octet.
                (case parseInt octet of
                   None \<Rightarrow> False
                 | Some num \<Rightarrow> num \<ge> 0 \<and> num \<le> 255 \<and> octet = toString num)) octets)"

text \<open>\<^verbatim>\<open>isValidPrefix\<close> (lines 37 to 39). A prefix is an \<^typ>\<open>int\<close>, so
  \<^verbatim>\<open>Number.isInteger(prefix)\<close> holds.\<close>

definition isValidPrefix :: "int \<Rightarrow> bool" where
  "isValidPrefix prefix = (prefix \<ge> 0 \<and> prefix \<le> 32)"

text \<open>\<^verbatim>\<open>ipToInt\<close> (lines 46 to 49): \<^verbatim>\<open>reduce\<close> from 0 over the segments, then \<^verbatim>\<open>>>> 0\<close>.
  The accumulator is called \<^verbatim>\<open>int\<close> in the source.\<close>

definition ipToInt :: "string \<Rightarrow> int" where
  "ipToInt ip =
     js_ushr (nan0 (foldl (\<lambda>int' octet. num_add (Some (js_shl (nan0 int') 8)) (parseInt octet))
                      (Some 0) (str_split CHR ''.'' ip))) 0"

text \<open>\<^verbatim>\<open>intToIP\<close> (lines 56 to 63); \<^verbatim>\<open>join\<close> prints each number with \<^verbatim>\<open>toString\<close>.\<close>

definition intToIP :: "int \<Rightarrow> string" where
  "intToIP int' =
     str_join ''.'' (map toString
       [js_and (js_ushr int' 24) 255,
        js_and (js_ushr int' 16) 255,
        js_and (js_ushr int' 8) 255,
        js_and int' 255])"

text \<open>\<^verbatim>\<open>prefixToMask\<close> (lines 90 to 93), \<^verbatim>\<open>getNetworkAddress\<close> (lines 101 to 106) and
  \<^verbatim>\<open>getBroadcastAddress\<close> (lines 114 to 119). \<open>4294967295\<close> is \<^verbatim>\<open>0xFFFFFFFF\<close>.\<close>

definition prefixToMask :: "int \<Rightarrow> string" where
  "prefixToMask prefix =
     (let mask = js_ushr (js_shl 4294967295 (32 - prefix)) 0 in intToIP mask)"

definition getNetworkAddress :: "string \<Rightarrow> int \<Rightarrow> string" where
  "getNetworkAddress ip prefix =
     (let ipInt = ipToInt ip;
          maskInt = js_ushr (js_shl 4294967295 (32 - prefix)) 0;
          networkInt = js_ushr (js_and ipInt maskInt) 0
      in intToIP networkInt)"

definition getBroadcastAddress :: "string \<Rightarrow> int \<Rightarrow> string" where
  "getBroadcastAddress ip prefix =
     (let networkInt = ipToInt (getNetworkAddress ip prefix);
          hostMask = js_ushr (js_ushr 4294967295 prefix) 0;
          broadcastInt = js_ushr (js_or networkInt hostMask) 0
      in intToIP broadcastInt)"

text \<open>\<^verbatim>\<open>getFirstUsable\<close> (lines 126 to 129) and \<^verbatim>\<open>getLastUsable\<close> (lines 136 to 139).\<close>

definition getFirstUsable :: "string \<Rightarrow> string" where
  "getFirstUsable networkAddr =
     (let networkInt = ipToInt networkAddr in intToIP (js_ushr (networkInt + 1) 0))"

definition getLastUsable :: "string \<Rightarrow> string" where
  "getLastUsable broadcastAddr =
     (let broadcastInt = ipToInt broadcastAddr in intToIP (js_ushr (broadcastInt - 1) 0))"

text \<open>\<^verbatim>\<open>getUsableHosts\<close> (lines 146 to 149) and \<^verbatim>\<open>getTotalAddresses\<close> (lines 156 to
  158).\<close>

definition getUsableHosts :: "int \<Rightarrow> int" where
  "getUsableHosts prefix = (if prefix \<ge> 31 then 0 else Math_pow 2 (32 - prefix) - 2)"

definition getTotalAddresses :: "int \<Rightarrow> int" where
  "getTotalAddresses prefix = Math_pow 2 (32 - prefix)"

text \<open>\<^verbatim>\<open>getNetworkClass\<close> (lines 165 to 175). \<^verbatim>\<open>split\<close> never returns an empty array, so
  element 0 exists; every comparison with \<^verbatim>\<open>NaN\<close> is false.\<close>

definition getNetworkClass :: "string \<Rightarrow> string" where
  "getNetworkClass ip =
     (case parseInt (hd (str_split CHR ''.'' ip)) of
        None \<Rightarrow> ''Unknown''
      | Some firstOctet \<Rightarrow>
          if firstOctet \<ge> 1 \<and> firstOctet \<le> 126 then ''A''
          else if firstOctet \<ge> 128 \<and> firstOctet \<le> 191 then ''B''
          else if firstOctet \<ge> 192 \<and> firstOctet \<le> 223 then ''C''
          else if firstOctet \<ge> 224 \<and> firstOctet \<le> 239 then ''D (Multicast)''
          else if firstOctet \<ge> 240 \<and> firstOctet \<le> 255 then ''E (Reserved)''
          else ''Unknown'')"

text \<open>The object that \<^verbatim>\<open>calculateSubnets\<close> builds for one subnet (lines 218 to 228 and
  251 to 261).\<close>

record subnet =
  subnetNumber :: int
  networkAddress :: string
  broadcastAddress :: string
  firstUsable :: string
  lastUsable :: string
  usableHosts :: int
  subnetMask :: string
  prefix :: int
  totalAddresses :: int

text \<open>A thrown \<^verbatim>\<open>Error\<close> with its message.\<close>

datatype error = Error string

text \<open>The \<^verbatim>\<open>for\<close> loop of \<^verbatim>\<open>calculateSubnets\<close> (lines 246 to 262): \<open>i\<close> is the loop
  counter, \<open>subnets\<close> the array built so far; \<^verbatim>\<open>push\<close> appends at the end.\<close>

function calculateSubnets_loop ::
  "int \<Rightarrow> int \<Rightarrow> int \<Rightarrow> int \<Rightarrow> int \<Rightarrow> subnet list \<Rightarrow> subnet list" where
  "calculateSubnets_loop baseNetworkInt subnetSize numSubnets newPrefix i subnets =
     (if i < numSubnets then
        (let subnetNetworkInt = js_ushr (baseNetworkInt + i * subnetSize) 0;
             networkAddr = intToIP subnetNetworkInt;
             broadcastAddr = intToIP (js_ushr (subnetNetworkInt + subnetSize - 1) 0)
         in calculateSubnets_loop baseNetworkInt subnetSize numSubnets newPrefix (i + 1)
              (subnets @
                [\<lparr> subnetNumber = i + 1,
                   networkAddress = networkAddr,
                   broadcastAddress = broadcastAddr,
                   firstUsable = getFirstUsable networkAddr,
                   lastUsable = getLastUsable broadcastAddr,
                   usableHosts = getUsableHosts newPrefix,
                   subnetMask = prefixToMask newPrefix,
                   prefix = newPrefix,
                   totalAddresses = getTotalAddresses newPrefix \<rparr>]))
      else subnets)"
  by pat_completeness auto
termination
  by (relation "measure (\<lambda>(b, s, n, p, i, acc). nat (n - i))") auto

declare calculateSubnets_loop.simps [simp del]

text \<open>The record that one turn of the loop pushes, as a function of the counter \<open>i\<close>:
  the body of the loop, named so that the lemmas about the loop can speak of it.\<close>

definition subnet_at :: "int \<Rightarrow> int \<Rightarrow> int \<Rightarrow> int \<Rightarrow> subnet" where
  "subnet_at baseNetworkInt subnetSize newPrefix i =
     (let subnetNetworkInt = js_ushr (baseNetworkInt + i * subnetSize) 0;
          networkAddr = intToIP subnetNetworkInt;
          broadcastAddr = intToIP (js_ushr (subnetNetworkInt + subnetSize - 1) 0)
      in \<lparr> subnetNumber = i + 1,
           networkAddress = networkAddr,
           broadcastAddress = broadcastAddr,
           firstUsable = getFirstUsable networkAddr,
           lastUsable = getLastUsable broadcastAddr,
           usableHosts = getUsableHosts newPrefix,
           subnetMask = prefixToMask newPrefix,
           prefix = newPrefix,
           totalAddresses = getTotalAddresses newPrefix \<rparr>)"

text \<open>\<^verbatim>\<open>calculateSubnets(baseIP, basePrefix, newPrefix = null)\<close> (lines 204 to 265):
  \<open>None\<close> is \<^verbatim>\<open>null\<close>; a \<^verbatim>\<open>throw new Error(msg)\<close> is \<open>Inl (Error msg)\<close>. Past the third
  test \<open>newPrefix\<close> is not \<^verbatim>\<open>null\<close>, and \<open>the newPrefix\<close> is its number.\<close>

definition calculateSubnets :: "string \<Rightarrow> int \<Rightarrow> int option \<Rightarrow> error + subnet list" where
  "calculateSubnets baseIP basePrefix newPrefix =
     (if \<not> isValidIP baseIP then Inl (Error ''Invalid IP address'')
      else if \<not> isValidPrefix basePrefix then Inl (Error ''Invalid base prefix'')
      else if newPrefix = None \<or> newPrefix = Some basePrefix then
        (let networkAddr = getNetworkAddress baseIP basePrefix;
             broadcastAddr = getBroadcastAddress baseIP basePrefix
         in Inr [\<lparr> subnetNumber = 1,
                    networkAddress = networkAddr,
                    broadcastAddress = broadcastAddr,
                    firstUsable = getFirstUsable networkAddr,
                    lastUsable = getLastUsable broadcastAddr,
                    usableHosts = getUsableHosts basePrefix,
                    subnetMask = prefixToMask basePrefix,
                    prefix = basePrefix,
                    totalAddresses = getTotalAddresses basePrefix \<rparr>])
      else if \<not> isValidPrefix (the newPrefix) then Inl (Error ''Invalid new prefix'')
      else if the newPrefix \<le> basePrefix then
        Inl (Error ''New prefix must be larger than base prefix'')
      else
        (let baseNetworkAddr = getNetworkAddress baseIP basePrefix;
             baseNetworkInt = ipToInt baseNetworkAddr;
             subnetSize = Math_pow 2 (32 - the newPrefix);
             numSubnets = Math_pow 2 (the newPrefix - basePrefix)
         in Inr (calculateSubnets_loop baseNetworkInt subnetSize numSubnets (the newPrefix) 0 [])))"

section \<open>Conversions to 32 bits\<close>

lemma ToUint32_range: "0 \<le> ToUint32 n \<and> ToUint32 n < 4294967296"
  by (simp add: ToUint32_def)

lemma ToInt32_mod: "ToInt32 a mod 4294967296 = a mod 4294967296"
proof -
  have "(a mod 4294967296 - 4294967296) mod 4294967296 = a mod 4294967296"
    by simp
  then show ?thesis
    by (simp add: ToInt32_def Let_def)
qed

lemma ToUint32_ToInt32: "ToUint32 (ToInt32 a) = ToUint32 a"
  by (simp add: ToUint32_def ToInt32_mod)

lemma ToUint32_ToInt32_add: "ToUint32 (ToInt32 a + b) = ToUint32 (a + b)"
proof -
  have "(ToInt32 a + b) mod 4294967296 = (ToInt32 a mod 4294967296 + b) mod 4294967296"
    by (simp only: mod_add_left_eq)
  also have "\<dots> = (a + b) mod 4294967296"
    by (simp only: ToInt32_mod mod_add_left_eq)
  finally show ?thesis by (simp only: ToUint32_def)
qed

lemma js_ushr_0: "js_ushr a 0 = a mod 4294967296"
  by (simp add: js_ushr_def ToUint32_def)

lemma ToInt32_mod_256: "ToInt32 a mod 256 = a mod 256"
proof -
  have "(ToInt32 a mod 4294967296) mod 256 = (a mod 4294967296) mod 256"
    by (simp only: ToInt32_mod)
  then show ?thesis
    by (simp add: mod_mod_cancel)
qed

lemma and_255: "(x :: int) AND 255 = x mod 256"
proof -
  have "x AND mask 8 = take_bit 8 x" by (simp add: take_bit_eq_mask)
  then show ?thesis by (simp add: take_bit_eq_mod mask_eq_exp_minus_1)
qed

lemma ToInt32_small: "0 \<le> a \<Longrightarrow> a < 2147483648 \<Longrightarrow> ToInt32 a = a"
  by (simp add: ToInt32_def)

lemma js_and_255: "js_and x 255 = x mod 256"
  by (simp add: js_and_def ToInt32_small and_255 ToInt32_mod_256)

lemma js_shl_8: "js_shl a 8 = ToInt32 (ToInt32 a * 256)"
  by (simp add: js_shl_def ToUint32_def)

lemma js_ushr_24: "js_ushr a 24 = (a mod 4294967296) div 16777216"
  by (simp add: js_ushr_def ToUint32_def)
lemma js_ushr_16: "js_ushr a 16 = (a mod 4294967296) div 65536"
  by (simp add: js_ushr_def ToUint32_def)
lemma js_ushr_8: "js_ushr a 8 = (a mod 4294967296) div 256"
  by (simp add: js_ushr_def ToUint32_def)

lemma mod_2_32: "(n :: int) mod 4294967296 = take_bit 32 n"
  by (simp add: take_bit_eq_mod)

lemma take_bit_ToInt32: "take_bit 32 (ToInt32 a) = take_bit 32 a"
  using ToInt32_mod [of a] by (simp add: take_bit_eq_mod)

lemma js_ushr_js_and: "js_ushr (js_and a b) 0 = take_bit 32 a AND take_bit 32 b"
  by (simp add: js_ushr_0 mod_2_32 js_and_def take_bit_and take_bit_ToInt32)

lemma js_ushr_js_or: "js_ushr (js_or a b) 0 = take_bit 32 a OR take_bit 32 b"
  by (simp add: js_ushr_0 mod_2_32 js_or_def take_bit_or take_bit_ToInt32)

lemma ToInt32_all_ones: "ToInt32 4294967295 = - 1"
  by (simp add: ToInt32_def)

section \<open>Splitting, joining, printing and parsing\<close>

lemma str_split_not_Nil: "str_split sep s \<noteq> []"
  by (induction s) (auto split: list.splits)

lemma str_join_Cons_Cons: "str_join sep ((c # x) # xs) = c # str_join sep (x # xs)"
  by (cases xs) simp_all

lemma str_join_split: "str_join [sep] (str_split sep s) = s"
proof (induction s)
  case Nil
  show ?case by simp
next
  case (Cons c cs)
  obtain seg segs where split: "str_split sep cs = seg # segs"
    using str_split_not_Nil [of sep cs] by (cases "str_split sep cs") auto
  show ?case
  proof (cases "c = sep")
    case True
    with Cons split show ?thesis by simp
  next
    case False
    with Cons split show ?thesis by (simp add: str_join_Cons_Cons)
  qed
qed

lemma str_split_no_sep: "sep \<notin> set x \<Longrightarrow> str_split sep x = [x]"
  by (induction x) auto

lemma str_split_append: "sep \<notin> set x \<Longrightarrow> str_split sep (x @ sep # r) = x # str_split sep r"
  by (induction x) auto

lemma str_split_join4:
  assumes "sep \<notin> set a" "sep \<notin> set b" "sep \<notin> set c" "sep \<notin> set d"
  shows "str_split sep (str_join [sep] [a, b, c, d]) = [a, b, c, d]"
  using assms by (simp add: str_split_append str_split_no_sep)

lemma of_char_digit_char: "d < 10 \<Longrightarrow> (of_char (digit_char d) :: nat) = 48 + d"
  by (simp add: digit_char_def)

lemma isDigit_digit_char: "d < 10 \<Longrightarrow> isDigit (digit_char d)"
  by (simp add: isDigit_def of_char_digit_char)

lemma digit_val_digit_char: "d < 10 \<Longrightarrow> digit_val (digit_char d) = d"
  by (simp add: digit_val_def of_char_digit_char)

lemma nat_toString_digits: "list_all isDigit (nat_toString n)"
proof (induction n rule: nat_toString.induct)
  case (1 n)
  show ?case
  proof (cases "n < 10")
    case True
    then show ?thesis by (simp add: nat_toString.simps [of n] isDigit_digit_char)
  next
    case False
    with 1 show ?thesis by (simp add: nat_toString.simps [of n] isDigit_digit_char)
  qed
qed

lemma nat_toString_not_Nil: "nat_toString n \<noteq> []"
  by (simp add: nat_toString.simps [of n])

lemma digits_val_snoc: "digits_val (ds @ [c]) = 10 * digits_val ds + digit_val c"
  by (simp add: digits_val_def)

lemma digits_val_nat_toString: "digits_val (nat_toString n) = n"
proof (induction n rule: nat_toString.induct)
  case (1 n)
  show ?case
  proof (cases "n < 10")
    case True
    then show ?thesis
      by (simp add: nat_toString.simps [of n] digits_val_def digit_val_digit_char)
  next
    case False
    with 1 show ?thesis
      by (simp add: nat_toString.simps [of n] digits_val_snoc digit_val_digit_char)
  qed
qed

lemma isDigit_not_special:
  assumes "isDigit c"
  shows "\<not> isWhiteSpace c" "c \<noteq> CHR ''-''" "c \<noteq> CHR ''+''" "c \<noteq> CHR ''.''"
  using assms by (auto simp: isDigit_def isWhiteSpace_def)

lemma parseInt_digits:
  assumes "list_all isDigit ds" "ds \<noteq> []"
  shows "parseInt ds = Some (int (digits_val ds))"
proof -
  obtain c r where ds: "ds = c # r" using assms(2) by (cases ds) auto
  with assms(1) have c: "isDigit c" by simp
  have all: "takeWhile isDigit ds = ds"
    using assms(1) by (simp add: takeWhile_eq_all_conv list_all_iff)
  show ?thesis
    using all assms(2) isDigit_not_special [OF c]
    by (simp add: parseInt_def ds)
qed

lemma parseInt_toString: "0 \<le> n \<Longrightarrow> parseInt (toString n) = Some n"
  by (simp add: toString_def parseInt_digits nat_toString_digits nat_toString_not_Nil
      digits_val_nat_toString)

lemma toString_no_dot: "0 \<le> n \<Longrightarrow> CHR ''.'' \<notin> set (toString n)"
  using nat_toString_digits [of "nat n"] isDigit_not_special(4)
  by (auto simp: toString_def list_all_iff)

lemma isValidIP_octets:
  assumes "isValidIP ip"
  obtains x y z w where
    "str_split CHR ''.'' ip = [toString x, toString y, toString z, toString w]"
    "0 \<le> x" "x \<le> 255" "0 \<le> y" "y \<le> 255" "0 \<le> z" "z \<le> 255" "0 \<le> w" "w \<le> 255"
proof -
  let ?ok = "\<lambda>octet. case parseInt octet of None \<Rightarrow> False
                     | Some num \<Rightarrow> num \<ge> 0 \<and> num \<le> 255 \<and> octet = toString num"
  have ok_D: "\<exists>n. 0 \<le> n \<and> n \<le> 255 \<and> s = toString n" if "?ok s" for s
    using that by (cases "parseInt s") auto
  from assms have len: "length (str_split CHR ''.'' ip) = 4"
    and all: "list_all ?ok (str_split CHR ''.'' ip)"
    by (auto simp: isValidIP_def Let_def split: if_splits)
  from len obtain a b c d where abcd: "str_split CHR ''.'' ip = [a, b, c, d]"
    by (auto simp: length_Suc_conv numeral_eq_Suc)
  from all abcd have ok: "?ok a" "?ok b" "?ok c" "?ok d" by simp_all
  from ok_D [OF ok(1)] obtain x where x: "0 \<le> x" "x \<le> 255" "a = toString x" by blast
  from ok_D [OF ok(2)] obtain y where y: "0 \<le> y" "y \<le> 255" "b = toString y" by blast
  from ok_D [OF ok(3)] obtain z where z: "0 \<le> z" "z \<le> 255" "c = toString z" by blast
  from ok_D [OF ok(4)] obtain w where w: "0 \<le> w" "w \<le> 255" "d = toString w" by blast
  from abcd x y z w show thesis by (intro that [of x y z w]) simp_all
qed

section \<open>Packing and unpacking the four octets\<close>

lemma ipToInt_octets:
  assumes split: "str_split CHR ''.'' ip = [toString x, toString y, toString z, toString w]"
    and x: "0 \<le> x" "x \<le> 255" and y: "0 \<le> y" "y \<le> 255"
    and z: "0 \<le> z" "z \<le> 255" and w: "0 \<le> w" "w \<le> 255"
  shows "ipToInt ip = x * 16777216 + y * 65536 + z * 256 + w"
proof -
  define a1 where "a1 = x"
  define a2 where "a2 = a1 * 256 + y"
  define a3 where "a3 = a2 * 256 + z"
  have s0: "js_shl 0 8 = 0"
    by (simp add: js_shl_8 ToInt32_small)
  have s1: "js_shl a1 8 = a1 * 256"
    using x by (simp add: js_shl_8 ToInt32_small a1_def)
  have s2: "js_shl a2 8 = a2 * 256"
    using x y by (simp add: js_shl_8 ToInt32_small a1_def a2_def)
  have b3: "0 \<le> a3" "a3 < 16777216"
    using x y z by (simp_all add: a1_def a2_def a3_def)
  then have "ToInt32 a3 = a3" by (simp add: ToInt32_small)
  then have s3: "js_shl a3 8 = ToInt32 (a3 * 256)"
    by (simp add: js_shl_8)
  have "ipToInt ip = js_ushr (ToInt32 (a3 * 256) + w) 0"
    using x y z w s0 s1 s2 s3
    by (simp add: ipToInt_def split parseInt_toString nan0_def a1_def a2_def a3_def)
  also have "\<dots> = (a3 * 256 + w) mod 4294967296"
    using ToUint32_ToInt32_add [of "a3 * 256" w] by (simp add: js_ushr_0 ToUint32_def)
  also have "\<dots> = a3 * 256 + w"
    using b3 w by simp
  finally show ?thesis
    by (simp add: a1_def a2_def a3_def)
qed

lemma div_256_bytes:
  fixes q r :: int
  assumes "0 \<le> r" "r \<le> 255"
  shows "(q * 256 + r) div 256 = q" "(q * 256 + r) mod 256 = r"
  using assms by simp_all

lemma intToIP_bytes: 
  "intToIP n = str_join ''.'' (map toString
       [(n mod 4294967296) div 16777216 mod 256, (n mod 4294967296) div 65536 mod 256,
        (n mod 4294967296) div 256 mod 256, n mod 256])"
  by (simp add: intToIP_def js_and_255 js_ushr_24 js_ushr_16 js_ushr_8)

lemma intToIP_octets:
  fixes x y z w :: int
  assumes x: "0 \<le> x" "x \<le> 255" and y: "0 \<le> y" "y \<le> 255"
    and z: "0 \<le> z" "z \<le> 255" and w: "0 \<le> w" "w \<le> 255"
  shows "intToIP (x * 16777216 + y * 65536 + z * 256 + w)
         = str_join ''.'' [toString x, toString y, toString z, toString w]"
proof -
  define n where "n = x * 16777216 + y * 65536 + z * 256 + w"
  have n1: "n = ((x * 256 + y) * 256 + z) * 256 + w" by (simp add: n_def)
  have n2: "n div 256 = (x * 256 + y) * 256 + z"
    unfolding n1 using w by (rule div_256_bytes(1))
  have n3: "n div 65536 = x * 256 + y"
  proof -
    have "n div 65536 = n div 256 div 256"
      by (simp add: zdiv_zmult2_eq [symmetric])
    then show ?thesis unfolding n2 using div_256_bytes(1) [OF z] by simp
  qed
  have n4: "n div 16777216 = x"
  proof -
    have "n div 16777216 = n div 65536 div 256"
      by (simp add: zdiv_zmult2_eq [symmetric])
    then show ?thesis unfolding n3 using div_256_bytes(1) [OF y] by simp
  qed
  have range: "0 \<le> n" "n < 4294967296"
    using x y z w by (simp_all add: n_def)
  then have m: "n mod 4294967296 = n" by simp
  have "n mod 256 = w" unfolding n1 using w by (rule div_256_bytes(2))
  moreover have "n div 256 mod 256 = z" unfolding n2 using z by (rule div_256_bytes(2))
  moreover have "n div 65536 mod 256 = y" unfolding n3 using y by (rule div_256_bytes(2))
  moreover have "n div 16777216 mod 256 = x" unfolding n4 using x by simp
  ultimately show ?thesis
    unfolding n_def [symmetric] by (simp add: intToIP_bytes m)
qed

lemma bytes_recompose:
  fixes n :: int
  assumes "0 \<le> n" "n < 4294967296"
  shows "(n div 16777216 mod 256) * 16777216 + (n div 65536 mod 256) * 65536
         + (n div 256 mod 256) * 256 + n mod 256 = n"
proof -
  define m1 where "m1 = n div 256"
  define m2 where "m2 = m1 div 256"
  define m3 where "m3 = m2 div 256"
  have e2: "n div 65536 = m2"
    by (simp add: m1_def m2_def zdiv_zmult2_eq [symmetric])
  have e3: "n div 16777216 = m3"
    by (simp add: m1_def m2_def m3_def zdiv_zmult2_eq [symmetric])
  have "0 \<le> m3" "m3 < 256"
    using assms unfolding e3 [symmetric] by simp_all
  then have m3: "m3 mod 256 = m3" by simp
  have d1: "n = m1 * 256 + n mod 256" by (simp add: m1_def)
  have d2: "m1 = m2 * 256 + m1 mod 256" by (simp add: m2_def)
  have d3: "m2 = m3 * 256 + m2 mod 256" by (simp add: m3_def)
  show ?thesis
    unfolding e2 e3 m3 m1_def [symmetric] using d1 d2 d3 by linarith
qed

lemma intToIP_ipToInt:
  assumes "isValidIP a"
  shows "intToIP (ipToInt a) = a"
proof -
  from assms obtain x y z w where
    split: "str_split CHR ''.'' a = [toString x, toString y, toString z, toString w]"
    and b: "0 \<le> x" "x \<le> 255" "0 \<le> y" "y \<le> 255" "0 \<le> z" "z \<le> 255" "0 \<le> w" "w \<le> 255"
    by (rule isValidIP_octets)
  have "intToIP (ipToInt a) = str_join ''.'' (str_split CHR ''.'' a)"
    using b by (simp add: ipToInt_octets [OF split] intToIP_octets split)
  then show ?thesis by (simp add: str_join_split)
qed

lemma ipToInt_intToIP: "ipToInt (intToIP n) = n mod 4294967296"
proof -
  define m where "m = n mod 4294967296"
  define x where "x = m div 16777216 mod 256"
  define y where "y = m div 65536 mod 256"
  define z where "z = m div 256 mod 256"
  define w where "w = m mod 256"
  have b: "0 \<le> x" "x \<le> 255" "0 \<le> y" "y \<le> 255" "0 \<le> z" "z \<le> 255" "0 \<le> w" "w \<le> 255"
    by (simp_all add: x_def y_def z_def w_def)
  have m: "0 \<le> m" "m < 4294967296" by (simp_all add: m_def)
  have w': "w = n mod 256"
    by (simp add: w_def m_def mod_mod_cancel)
  have ip: "intToIP n = str_join ''.'' [toString x, toString y, toString z, toString w]"
    by (simp add: intToIP_bytes x_def y_def z_def w' m_def)
  have "str_split CHR ''.'' (intToIP n) = [toString x, toString y, toString z, toString w]"
    unfolding ip using b by (intro str_split_join4 toString_no_dot)
  then have "ipToInt (intToIP n) = x * 16777216 + y * 65536 + z * 256 + w"
    using b by (rule ipToInt_octets)
  also have "\<dots> = m"
    unfolding x_def y_def z_def w_def using m by (rule bytes_recompose)
  finally show ?thesis by (simp add: m_def)
qed

lemma ipToInt_range: "0 \<le> ipToInt a \<and> ipToInt a < 4294967296"
  by (simp add: ipToInt_def js_ushr_0)

section \<open>The loop of \<^verbatim>\<open>calculateSubnets\<close>\<close>

lemma calculateSubnets_loop_step:
  "i < n \<Longrightarrow> calculateSubnets_loop b s n p i acc
     = calculateSubnets_loop b s n p (i + 1) (acc @ [subnet_at b s p i])"
  by (subst calculateSubnets_loop.simps) (simp add: subnet_at_def Let_def)

lemma calculateSubnets_loop_stop:
  "\<not> i < n \<Longrightarrow> calculateSubnets_loop b s n p i acc = acc"
  by (subst calculateSubnets_loop.simps) simp

lemma calculateSubnets_loop_map:
  "calculateSubnets_loop b s n p i acc = acc @ map (subnet_at b s p) [i..n - 1]"
proof (induction "nat (n - i)" arbitrary: i acc)
  case 0
  then have "\<not> i < n" by simp
  then show ?case by (simp add: calculateSubnets_loop_stop)
next
  case (Suc k)
  then have lt: "i < n" and k: "k = nat (n - (i + 1))" by simp_all
  have "[i..n - 1] = i # [i + 1..n - 1]"
    using lt by (simp add: upto_rec1)
  with Suc.hyps(1) [OF k] lt show ?case
    by (simp add: calculateSubnets_loop_step)
qed

lemma length_calculateSubnets_loop:
  "length (calculateSubnets_loop b s n p 0 []) = nat n"
  by (simp add: calculateSubnets_loop_map)

section \<open>Network mask and host mask\<close>

text \<open>
  What the two mask expressions compute for every prefix, and from it the integers of
  \<^verbatim>\<open>prefixToMask\<close>, \<^verbatim>\<open>getNetworkAddress\<close> and \<^verbatim>\<open>getBroadcastAddress\<close>. For a prefix
  from 1 to 32 the network mask has the prefix's number of leading one bits; for a prefix
  from 0 to 31 the host mask is \<open>2 ^ (32 - prefix) - 1\<close>.
\<close>

text \<open>The network mask: the shift count is \<open>(32 - prefix) mod 32\<close>.\<close>

lemma network_mask:
  "js_ushr (js_shl 4294967295 (32 - p)) 0 = 4294967296 - 2 ^ nat ((32 - p) mod 32)"
proof -
  define k where "k = nat ((32 - p) mod 32)"
  have k: "k < 32" by (simp add: k_def nat_less_iff)
  have count: "nat (ToUint32 (32 - p) mod 32) = k"
    by (simp add: k_def ToUint32_def mod_mod_cancel)
  have pos: "(0::int) < 2 ^ k" by simp
  have "(2::int) ^ k \<le> 2 ^ 32"
    using k by (intro power_increasing) simp_all
  then have le: "(2::int) ^ k \<le> 2 ^ 32" .
  have "js_ushr (js_shl 4294967295 (32 - p)) 0 = take_bit 32 (- (2 ^ k) :: int)"
    by (simp add: js_ushr_0 mod_2_32 js_shl_def count ToInt32_all_ones take_bit_ToInt32)
  also have "\<dots> = 2 ^ 32 - 2 ^ k"
    using pos le by (rule take_bit_minus_small_eq)
  finally show ?thesis by (simp add: k_def)
qed

lemma and_network_mask:
  fixes a :: int
  assumes "0 \<le> a" "a < 4294967296" "k \<le> 32"
  shows "a AND (4294967296 - 2 ^ k) = a - a mod 2 ^ k"
proof -
  have a: "take_bit 32 a = a"
    using assms by (simp add: take_bit_eq_mod)
  have "(4294967296 :: int) - 2 ^ k = push_bit k (mask (32 - k))"
    using assms(3) by (simp add: push_bit_eq_mult mask_eq_exp_minus_1 algebra_simps
        power_add [symmetric])
  also have "\<dots> = mask 32 AND NOT (mask k)"
    using assms(3) by (simp add: push_bit_mask_eq)
  finally have "a AND (4294967296 - 2 ^ k) = a AND mask 32 AND NOT (mask k)"
    by (simp add: and.assoc)
  also have "\<dots> = push_bit k (take_bit (32 - k) (drop_bit k a))"
    using assms(3) slice_eq_mask [of k "32 - k" a] by simp
  also have "\<dots> = push_bit k (drop_bit k (take_bit 32 a))"
    using assms(3) by (simp add: drop_bit_take_bit)
  also have "\<dots> = 2 ^ k * (a div 2 ^ k)"
    by (simp add: a push_bit_eq_mult drop_bit_eq_div)
  also have "\<dots> = a - a mod 2 ^ k"
    by (simp add: minus_mod_eq_mult_div)
  finally show ?thesis .
qed

lemma getNetworkAddress_int:
  "ipToInt (getNetworkAddress ip p) = ipToInt ip - ipToInt ip mod 2 ^ nat ((32 - p) mod 32)"
proof -
  define a where "a = ipToInt ip"
  define k where "k = nat ((32 - p) mod 32)"
  have a: "0 \<le> a" "a < 4294967296" using ipToInt_range [of ip] by (simp_all add: a_def)
  have k: "k \<le> 32" by (simp add: k_def nat_le_iff)
  have m: "0 \<le> (4294967296 :: int) - 2 ^ k" "(4294967296 :: int) - 2 ^ k < 4294967296"
    using power_increasing [of k 32 "2::int"] k by simp_all
  have ta: "take_bit 32 a = a"
    using a by (simp add: take_bit_eq_mod)
  have p32: "(2 :: int) ^ 32 = 4294967296" by simp
  have tm: "take_bit 32 ((4294967296 :: int) - 2 ^ k) = 4294967296 - 2 ^ k"
    unfolding take_bit_eq_mod p32 using m by (rule mod_pos_pos_trivial)
  have "js_ushr (js_and a (4294967296 - 2 ^ k)) 0 = a AND (4294967296 - 2 ^ k)"
    by (simp only: js_ushr_js_and ta tm)
  also have "\<dots> = a - a mod 2 ^ k"
    using a k by (rule and_network_mask)
  finally have net: "js_ushr (js_and a (4294967296 - 2 ^ k)) 0 = a - a mod 2 ^ k" .
  have "0 \<le> a - a mod 2 ^ k" "a - a mod 2 ^ k < 4294967296"
    using a by (simp_all add: mod_int_pos_iff zmod_le_nonneg_dividend
        order.strict_trans1 [of "a - a mod 2 ^ k" a])
  then have "(a - a mod 2 ^ k) mod 4294967296 = a - a mod 2 ^ k" by simp
  then show ?thesis
    unfolding getNetworkAddress_def Let_def network_mask
    by (simp only: a_def [symmetric] k_def [symmetric] net ipToInt_intToIP)
qed

lemma host_mask:
  "js_ushr (js_ushr 4294967295 p) 0 = 2 ^ (32 - nat (p mod 32)) - 1"
proof -
  define c where "c = nat (p mod 32)"
  have c: "c < 32" by (simp add: c_def nat_less_iff)
  have count: "nat (ToUint32 p mod 32) = c"
    by (simp add: c_def ToUint32_def mod_mod_cancel)
  have "js_ushr 4294967295 p = drop_bit c (mask 32 :: int)"
    unfolding js_ushr_def count
    by (simp add: ToUint32_def drop_bit_eq_div mask_eq_exp_minus_1)
  also have "\<dots> = mask (32 - c)"
    by (simp add: drop_bit_mask_eq)
  finally have h: "js_ushr 4294967295 p = 2 ^ (32 - c) - 1"
    by (simp add: mask_eq_exp_minus_1)
  have "(2::int) ^ (32 - c) \<le> 2 ^ 32"
    by (intro power_increasing) simp_all
  then have "0 \<le> (2::int) ^ (32 - c) - 1" "(2::int) ^ (32 - c) - 1 < 4294967296"
    by simp_all
  then show ?thesis
    unfolding h c_def [symmetric] by (simp add: js_ushr_0)
qed

lemma getBroadcastAddress_int:
  "ipToInt (getBroadcastAddress ip p)
     = ipToInt (getNetworkAddress ip p) OR (2 ^ (32 - nat (p mod 32)) - 1)"
proof -
  define n where "n = ipToInt (getNetworkAddress ip p)"
  define h where "h = (2 :: int) ^ (32 - nat (p mod 32)) - 1"
  have n: "take_bit 32 n = n"
    using ipToInt_range [of "getNetworkAddress ip p"] by (simp add: n_def take_bit_eq_mod)
  have "h = mask (32 - nat (p mod 32))" by (simp add: h_def mask_eq_exp_minus_1)
  then have h: "take_bit 32 h = h" by (simp add: take_bit_eq_mask [symmetric])
  have "js_ushr (js_or n h) 0 = n OR h"
    by (simp add: js_ushr_js_or n h)
  moreover have "(n OR h) mod 4294967296 = n OR h"
    using n h by (simp add: mod_2_32 take_bit_or)
  ultimately show ?thesis
    unfolding getBroadcastAddress_def Let_def host_mask
    by (simp only: n_def [symmetric] h_def [symmetric] ipToInt_intToIP)
qed

lemma or_host_mask:
  fixes q :: int
  shows "2 ^ k * q OR (2 ^ k - 1) = 2 ^ k * q + 2 ^ k - 1"
proof -
  have "2 ^ k * q OR (2 ^ k - 1) = take_bit k (- 1) OR push_bit k q"
    by (simp add: push_bit_eq_mult mask_eq_exp_minus_1 or.commute mult.commute)
  also have "\<dots> = concat_bit k (- 1) q"
    by (simp add: concat_bit_def)
  also have "\<dots> = take_bit k (- 1) + push_bit k q"
    by (rule concat_bit_eq)
  finally show ?thesis
    by (simp add: push_bit_eq_mult mask_eq_exp_minus_1)
qed

lemma shift_count:
  fixes p :: int
  assumes "1 \<le> p" "p \<le> 32"
  shows "(32 - p) mod 32 = 32 - p"
proof -
  have "0 \<le> 32 - p" "32 - p < 32" using assms by simp_all
  then show ?thesis by (rule mod_pos_pos_trivial)
qed

lemma prefixToMask_int:
  assumes "1 \<le> p" "p \<le> 32"
  shows "ipToInt (prefixToMask p) = 2 ^ 32 - 2 ^ nat (32 - p)"
proof -
  have k: "(32 - p) mod 32 = 32 - p" using assms by (rule shift_count)
  have "(2::int) ^ nat (32 - p) \<le> 2 ^ 32"
    using assms(1) by (intro power_increasing) simp_all
  then have "0 \<le> (4294967296 :: int) - 2 ^ nat (32 - p)"
    "(4294967296 :: int) - 2 ^ nat (32 - p) < 4294967296" by simp_all
  then have "((4294967296 :: int) - 2 ^ nat (32 - p)) mod 4294967296 = 4294967296 - 2 ^ nat (32 - p)"
    by (rule mod_pos_pos_trivial)
  then show ?thesis
    unfolding prefixToMask_def Let_def network_mask k ipToInt_intToIP by simp
qed

lemma prefixToMask_bits:
  assumes "1 \<le> p" "p \<le> 32" "i < 32"
  shows "bit (ipToInt (prefixToMask p)) i \<longleftrightarrow> nat (32 - p) \<le> i"
proof -
  define k where "k = nat (32 - p)"
  have k: "k \<le> 32" using assms(1) by (simp add: k_def)
  have "(2 :: int) ^ 32 - 2 ^ k = push_bit k (mask (32 - k))"
    using k by (simp add: push_bit_eq_mult mask_eq_exp_minus_1 algebra_simps
        power_add [symmetric])
  then have "ipToInt (prefixToMask p) = push_bit k (mask (32 - k))"
    using assms(1,2) by (simp only: prefixToMask_int k_def)
  then show ?thesis
    using assms(3) k by (auto simp: bit_push_bit_iff bit_mask_iff k_def [symmetric])
qed

lemma getBroadcastAddress_or:
  assumes "0 \<le> p" "p \<le> 31"
  shows "ipToInt (getBroadcastAddress ip p)
           = ipToInt (getNetworkAddress ip p) OR (2 ^ nat (32 - p) - 1)"
proof -
  have "32 - nat (p mod 32) = nat (32 - p)" using assms by simp
  then show ?thesis by (simp only: getBroadcastAddress_int)
qed

lemma base_network_bounds:
  fixes ip :: string and b :: int
  assumes "1 \<le> b" "b \<le> 32"
  defines "B \<equiv> ipToInt (getNetworkAddress ip b)"
  shows "0 \<le> B" "B + 2 ^ nat (32 - b) \<le> 4294967296"
    "B = ipToInt ip - ipToInt ip mod 2 ^ nat (32 - b)"
proof -
  define a where "a = ipToInt ip"
  define K where "K = (2 :: int) ^ nat (32 - b)"
  have a: "0 \<le> a" "a < 4294967296" using ipToInt_range [of ip] by (simp_all add: a_def)
  have Kpos: "0 < K" by (simp add: K_def)
  have km: "(32 - b) mod 32 = 32 - b" using assms(1,2) by (rule shift_count)
  show B: "B = ipToInt ip - ipToInt ip mod 2 ^ nat (32 - b)"
    by (simp only: B_def getNetworkAddress_int km)
  then have BK: "B = K * (a div K)"
    by (simp add: a_def K_def minus_mod_eq_mult_div)
  show "0 \<le> B"
    unfolding BK using a Kpos by (simp add: pos_imp_zdiv_nonneg_iff)
  have full: "K * 2 ^ nat b = 4294967296"
  proof -
    have "nat (32 - b) + nat b = 32" using assms by simp
    then have "K * 2 ^ nat b = 2 ^ 32"
      unfolding K_def by (simp only: power_add [symmetric])
    then show ?thesis by simp
  qed
  have "a div K < 2 ^ nat b"
  proof -
    have "a = K * (a div K) + a mod K" by simp
    moreover have "0 \<le> a mod K" using Kpos by simp
    ultimately have "K * (a div K) \<le> a" by linarith
    then have "K * (a div K) < K * 2 ^ nat b" using a full by simp
    then show ?thesis using Kpos by (simp only: mult_less_cancel_left_pos)
  qed
  then have "a div K + 1 \<le> 2 ^ nat b" by simp
  then have "K * (a div K + 1) \<le> K * 2 ^ nat b"
    using Kpos by (simp only: mult_le_cancel_left_pos)
  then show "B + 2 ^ nat (32 - b) \<le> 4294967296"
    unfolding BK full K_def [symmetric] by (simp add: algebra_simps)
qed

lemma getBroadcastAddress_top:
  assumes "1 \<le> p" "p \<le> 31"
  shows "ipToInt (getBroadcastAddress ip p)
           = ipToInt (getNetworkAddress ip p) + 2 ^ nat (32 - p) - 1"
proof -
  define a where "a = ipToInt ip"
  define k where "k = nat (32 - p)"
  have "ipToInt (getNetworkAddress ip p) = a - a mod 2 ^ k"
    unfolding a_def k_def using assms by (intro base_network_bounds) simp_all
  then have net: "ipToInt (getNetworkAddress ip p) = 2 ^ k * (a div 2 ^ k)"
    by (simp add: minus_mod_eq_mult_div)
  have "ipToInt (getBroadcastAddress ip p) = ipToInt (getNetworkAddress ip p) OR (2 ^ k - 1)"
    unfolding k_def using assms by (intro getBroadcastAddress_or) simp_all
  then show ?thesis
    unfolding net k_def [symmetric] by (simp only: or_host_mask)
qed

section \<open>Splitting a network whose base prefix is at least 1\<close>

text \<open>
  With a base prefix \<open>b\<close> of at least 1 and a new prefix \<open>t\<close> above it, the loop returns
  \<open>2 ^ (t - b)\<close> subnets, numbered from 1; the subnet at position \<open>k\<close> (from 0) starts at
  the base network address plus \<open>k * 2 ^ (32 - t)\<close> and ends \<open>2 ^ (32 - t) - 1\<close> later. No
  sum leaves the 32 bits, so each block starts right after the one before, the first at
  the base network address and the last ending with the base network.
\<close>

lemma subnet_at_ints:
  assumes lo: "0 \<le> B + i * S" and hi: "B + i * S + S \<le> 4294967296" and S: "1 \<le> S"
  shows "subnetNumber (subnet_at B S t i) = i + 1"
    and "ipToInt (networkAddress (subnet_at B S t i)) = B + i * S"
    and "ipToInt (broadcastAddress (subnet_at B S t i)) = B + i * S + S - 1"
proof -
  define n where "n = B + i * S"
  have n: "0 \<le> n" "n < 4294967296" using lo hi S by (simp_all add: n_def)
  then have nm: "n mod 4294967296 = n" by simp
  have b: "0 \<le> n + S - 1" "n + S - 1 < 4294967296" using n hi S by (simp_all add: n_def)
  then have bm: "(n + S - 1) mod 4294967296 = n + S - 1" by simp
  show "subnetNumber (subnet_at B S t i) = i + 1"
    by (simp add: subnet_at_def Let_def)
  show "ipToInt (networkAddress (subnet_at B S t i)) = B + i * S"
    unfolding n_def [symmetric]
    by (simp add: subnet_at_def Let_def js_ushr_0 ipToInt_intToIP n_def [symmetric] nm)
  show "ipToInt (broadcastAddress (subnet_at B S t i)) = B + i * S + S - 1"
    unfolding n_def [symmetric]
    by (simp add: subnet_at_def Let_def js_ushr_0 ipToInt_intToIP n_def [symmetric] nm bm)
qed

lemma calculateSubnets_split:
  assumes ip: "isValidIP ip" and b: "1 \<le> b" "b < t" and t: "t \<le> 32"
  shows "\<exists>xs. calculateSubnets ip b (Some t) = Inr xs \<and>
           length xs = 2 ^ nat (t - b) \<and>
           (\<forall>k < length xs.
              subnetNumber (xs ! k) = int k + 1 \<and>
              ipToInt (networkAddress (xs ! k))
                = ipToInt (getNetworkAddress ip b) + int k * 2 ^ nat (32 - t) \<and>
              ipToInt (broadcastAddress (xs ! k))
                = ipToInt (getNetworkAddress ip b) + int k * 2 ^ nat (32 - t)
                  + 2 ^ nat (32 - t) - 1) \<and>
           ipToInt (getNetworkAddress ip b) = ipToInt ip - ipToInt ip mod 2 ^ nat (32 - b) \<and>
           (2 :: int) ^ nat (t - b) * 2 ^ nat (32 - t) = 2 ^ nat (32 - b) \<and>
           ipToInt (getNetworkAddress ip b) + 2 ^ nat (32 - b) \<le> 2 ^ 32"
proof -
  define B where "B = ipToInt (getNetworkAddress ip b)"
  define S where "S = (2 :: int) ^ nat (32 - t)"
  define N where "N = (2 :: int) ^ nat (t - b)"
  define xs where "xs = map (subnet_at B S t) [0..N - 1]"
  have b32: "b \<le> 32" using b t by simp
  have B0: "0 \<le> B" and Btop: "B + 2 ^ nat (32 - b) \<le> 4294967296"
    and Beq: "B = ipToInt ip - ipToInt ip mod 2 ^ nat (32 - b)"
    unfolding B_def using b(1) b32 by (rule base_network_bounds)+
  have S1: "1 \<le> S" by (simp add: S_def)
  have N0: "0 \<le> N" by (simp add: N_def)
  have NS: "N * S = 2 ^ nat (32 - b)"
  proof -
    have "nat (t - b) + nat (32 - t) = nat (32 - b)" using b t by simp
    then show ?thesis unfolding N_def S_def by (simp only: power_add [symmetric])
  qed
  have run: "calculateSubnets ip b (Some t) = Inr xs"
    using ip b t
    by (simp add: calculateSubnets_def isValidPrefix_def Let_def calculateSubnets_loop_map
        Math_pow_def xs_def B_def S_def N_def)
  have len: "length xs = nat N"
    by (simp add: xs_def)
  have lenN: "length xs = 2 ^ nat (t - b)"
    unfolding len N_def by (simp add: nat_power_eq)
  have each: "subnetNumber (xs ! k) = int k + 1 \<and>
      ipToInt (networkAddress (xs ! k)) = B + int k * S \<and>
      ipToInt (broadcastAddress (xs ! k)) = B + int k * S + S - 1" if k: "k < length xs" for k
  proof -
    from k len have kN: "int k < N" by simp
    then have nth: "xs ! k = subnet_at B S t (int k)"
      using k by (simp add: xs_def)
    have lo: "0 \<le> B + int k * S" using B0 S1 by simp
    have "(int k + 1) * S \<le> N * S"
      using kN S1 by (intro mult_right_mono) simp_all
    then have hi: "B + int k * S + S \<le> 4294967296"
      using Btop NS by (simp add: algebra_simps)
    show ?thesis
      unfolding nth using subnet_at_ints [OF lo hi S1] by simp
  qed
  from run lenN each Beq NS Btop show ?thesis
    unfolding B_def S_def N_def by auto
qed

lemma single_network_no_wrap:
  assumes b: "1 \<le> b" "b \<le> 31"
  shows "ipToInt (getNetworkAddress ip b) \<noteq> 4294967295"
    and "ipToInt (getBroadcastAddress ip b) \<noteq> 0"
proof -
  have two: "(2 :: int) \<le> 2 ^ nat (32 - b)"
    using b power_increasing [of 1 "nat (32 - b)" "2 :: int"] by simp
  have "ipToInt (getNetworkAddress ip b) + 2 ^ nat (32 - b) \<le> 4294967296"
    using b by (intro base_network_bounds) simp_all
  with two show "ipToInt (getNetworkAddress ip b) \<noteq> 4294967295" by linarith
  have "ipToInt (getBroadcastAddress ip b)
          = ipToInt (getNetworkAddress ip b) OR (2 ^ nat (32 - b) - 1)"
    using b by (intro getBroadcastAddress_or) simp_all
  moreover have "(2 :: int) ^ nat (32 - b) - 1 \<noteq> 0" using two by linarith
  ultimately show "ipToInt (getBroadcastAddress ip b) \<noteq> 0"
    by (simp add: or_eq_0_iff)
qed

lemma calculateSubnets_no_wrap:
  assumes run: "calculateSubnets ip b t = Inr xs" and s: "s \<in> set xs"
    and b: "1 \<le> b" and p: "prefix s \<le> 31"
  shows "ipToInt (networkAddress s) \<noteq> 4294967295 \<and> ipToInt (broadcastAddress s) \<noteq> 0"
proof (cases "t = None \<or> t = Some b")
  case True
  with run s have fields: "networkAddress s = getNetworkAddress ip b"
    "broadcastAddress s = getBroadcastAddress ip b" "prefix s = b"
    by (auto simp: calculateSubnets_def Let_def split: if_splits)
  with p have "b \<le> 31" by simp
  with b show ?thesis
    unfolding fields by (simp add: single_network_no_wrap)
next
  case False
  then obtain n where tn: "t = Some n" and nb: "n \<noteq> b" by (cases t) auto
  from run tn nb have v: "isValidIP ip" "b < n" "n \<le> 32"
    and xs: "xs = calculateSubnets_loop (ipToInt (getNetworkAddress ip b))
        (Math_pow 2 (32 - n)) (Math_pow 2 (n - b)) n 0 []"
    by (auto simp: calculateSubnets_def isValidPrefix_def Let_def split: if_splits)
  from s obtain k where k: "k < length xs" "s = xs ! k"
    by (auto simp: in_set_conv_nth)
  have "prefix (xs ! k) = n"
    using k(1) by (simp add: xs calculateSubnets_loop_map subnet_at_def Let_def)
  with p k have n31: "n \<le> 31" by simp
  then have two: "(2 :: int) \<le> 2 ^ nat (32 - n)"
    using power_increasing [of 1 "nat (32 - n)" "2 :: int"] by simp
  from calculateSubnets_split [OF v(1) b v(2,3)] run tn k(1)
  have net: "ipToInt (networkAddress (xs ! k))
                = ipToInt (getNetworkAddress ip b) + int k * 2 ^ nat (32 - n)"
    and bc: "ipToInt (broadcastAddress (xs ! k))
                = ipToInt (getNetworkAddress ip b) + int k * 2 ^ nat (32 - n)
                  + 2 ^ nat (32 - n) - 1"
    by auto
  have r: "0 \<le> ipToInt (broadcastAddress (xs ! k))"
    "ipToInt (broadcastAddress (xs ! k)) < 4294967296"
    using ipToInt_range by simp_all
  have "0 \<le> ipToInt (getNetworkAddress ip b) + int k * 2 ^ nat (32 - n)"
    using ipToInt_range [of "getNetworkAddress ip b"] by simp
  with two r show ?thesis
    unfolding k(2) net bc by linarith
qed

section \<open>Round trips\<close>

text \<open>
  Claim C4. Converting a valid dotted-decimal address to its integer and back gives the
  same text, and converting an unsigned 32-bit integer to its dotted-decimal text and
  back gives the same integer.
\<close>

theorem conversion_round_trips:
  "(isValidIP a \<longrightarrow> intToIP (ipToInt a) = a) \<and>
   (0 \<le> n \<and> n < 4294967296 \<longrightarrow> ipToInt (intToIP n) = n)"
  by (simp add: intToIP_ipToInt ipToInt_intToIP)

theorem conversion_round_trips_witness:
  "isValidIP ''192.168.1.0'' \<and> intToIP (ipToInt ''192.168.1.0'') = ''192.168.1.0'' \<and>
   ipToInt (intToIP 3232235776) = 3232235776"
proof -
  have v: "isValidIP ''192.168.1.0''" by code_simp
  from conversion_round_trips [of "''192.168.1.0''" 3232235776] v show ?thesis by simp
qed

section \<open>Wrap-around of the usable range\<close>

text \<open>
  Claim C10. \<^verbatim>\<open>getFirstUsable\<close> and \<^verbatim>\<open>getLastUsable\<close> compute modulo \<open>2 ^ 32\<close>:
  the first usable address after 255.255.255.255 is 0.0.0.0, the last usable address
  before 0.0.0.0 is 255.255.255.255, and in general the integer of the result is the
  integer of the argument plus one (minus one) modulo \<open>2 ^ 32\<close>.
\<close>

theorem usable_wraparound:
  "getFirstUsable ''255.255.255.255'' = ''0.0.0.0'' \<and>
   getLastUsable ''0.0.0.0'' = ''255.255.255.255'' \<and>
   ipToInt (getFirstUsable a) = (ipToInt a + 1) mod 4294967296 \<and>
   ipToInt (getLastUsable b) = (ipToInt b - 1) mod 4294967296"
proof -
  have "getFirstUsable ''255.255.255.255'' = ''0.0.0.0''" by code_simp
  moreover have "getLastUsable ''0.0.0.0'' = ''255.255.255.255''" by code_simp
  moreover have "ipToInt (getFirstUsable a) = (ipToInt a + 1) mod 4294967296"
    by (simp add: getFirstUsable_def js_ushr_0 ipToInt_intToIP)
  moreover have "ipToInt (getLastUsable b) = (ipToInt b - 1) mod 4294967296"
    by (simp add: getLastUsable_def js_ushr_0 ipToInt_intToIP)
  ultimately show ?thesis by simp
qed

section \<open>Errors of \<^verbatim>\<open>calculateSubnets\<close>\<close>

text \<open>
  Claim C6. \<^verbatim>\<open>calculateSubnets\<close> fails with its own error for an invalid address, for a
  prefix out of range (base or new), and for a new prefix below the base prefix; the four
  errors differ from each other. A new prefix equal to the base prefix is no error: it
  gives the single network. A call that returns has checked the address and the base
  prefix and returns the whole sequence (one subnet, or all \<open>2 ^ (new - base)\<close>), never
  a part of it.
\<close>

theorem calculateSubnets_errors:
  "(\<not> isValidIP ip \<longrightarrow> calculateSubnets ip b t = Inl (Error ''Invalid IP address'')) \<and>
   (isValidIP ip \<and> \<not> isValidPrefix b \<longrightarrow>
      calculateSubnets ip b t = Inl (Error ''Invalid base prefix'')) \<and>
   (isValidIP ip \<and> isValidPrefix b \<and> \<not> isValidPrefix n \<longrightarrow>
      calculateSubnets ip b (Some n) = Inl (Error ''Invalid new prefix'')) \<and>
   (isValidIP ip \<and> isValidPrefix b \<and> isValidPrefix n \<and> n < b \<longrightarrow>
      calculateSubnets ip b (Some n) =
        Inl (Error ''New prefix must be larger than base prefix'')) \<and>
   distinct [Error ''Invalid IP address'', Error ''Invalid base prefix'',
             Error ''Invalid new prefix'', Error ''New prefix must be larger than base prefix''] \<and>
   (isValidIP ip \<and> isValidPrefix b \<longrightarrow> (\<exists>s. calculateSubnets ip b (Some b) = Inr [s])) \<and>
   (calculateSubnets ip b t = Inr xs \<longrightarrow>
      isValidIP ip \<and> isValidPrefix b \<and>
      length xs = (case t of None \<Rightarrow> 1 | Some m \<Rightarrow> if m = b then 1 else 2 ^ nat (m - b)))"
proof -
  have e1: "\<not> isValidIP ip \<longrightarrow> calculateSubnets ip b t = Inl (Error ''Invalid IP address'')"
    by (simp add: calculateSubnets_def)
  have e2: "isValidIP ip \<and> \<not> isValidPrefix b \<longrightarrow>
      calculateSubnets ip b t = Inl (Error ''Invalid base prefix'')"
    by (simp add: calculateSubnets_def)
  have e3: "isValidIP ip \<and> isValidPrefix b \<and> \<not> isValidPrefix n \<longrightarrow>
      calculateSubnets ip b (Some n) = Inl (Error ''Invalid new prefix'')"
    by (auto simp: calculateSubnets_def)
  have e4: "isValidIP ip \<and> isValidPrefix b \<and> isValidPrefix n \<and> n < b \<longrightarrow>
      calculateSubnets ip b (Some n) =
        Inl (Error ''New prefix must be larger than base prefix'')"
    by (simp add: calculateSubnets_def)
  have d: "distinct [Error ''Invalid IP address'', Error ''Invalid base prefix'',
             Error ''Invalid new prefix'', Error ''New prefix must be larger than base prefix'']"
    by simp
  have s: "isValidIP ip \<and> isValidPrefix b \<longrightarrow> (\<exists>s. calculateSubnets ip b (Some b) = Inr [s])"
    by (simp add: calculateSubnets_def Let_def)
  have full: "calculateSubnets ip b t = Inr xs \<longrightarrow>
      isValidIP ip \<and> isValidPrefix b \<and>
      length xs = (case t of None \<Rightarrow> 1 | Some m \<Rightarrow> if m = b then 1 else 2 ^ nat (m - b))"
  proof (cases t)
    case None
    then show ?thesis
      by (auto simp: calculateSubnets_def Let_def split: if_splits)
  next
    case (Some m)
    then show ?thesis
      by (auto simp: calculateSubnets_def Let_def length_calculateSubnets_loop Math_pow_def
               split: if_splits)
  qed
  from e1 e2 e3 e4 d s full show ?thesis by blast
qed

theorem calculateSubnets_errors_witness:
  "calculateSubnets ''256.1.1.1'' 24 (Some 26) = Inl (Error ''Invalid IP address'') \<and>
   calculateSubnets ''192.168.1.0'' 33 (Some 26) = Inl (Error ''Invalid base prefix'') \<and>
   calculateSubnets ''192.168.1.0'' 24 (Some 40) = Inl (Error ''Invalid new prefix'') \<and>
   calculateSubnets ''192.168.1.0'' 24 (Some 16) =
     Inl (Error ''New prefix must be larger than base prefix'') \<and>
   (\<exists>s. calculateSubnets ''192.168.1.0'' 24 (Some 24) = Inr [s]) \<and>
   (\<exists>xs. calculateSubnets ''192.168.1.0'' 24 (Some 26) = Inr xs \<and> length xs = 4)"
proof -
  have v: "isValidIP ''192.168.1.0''" and nv: "\<not> isValidIP ''256.1.1.1''" by code_simp+
  have p: "isValidPrefix 24" "\<not> isValidPrefix 33" "\<not> isValidPrefix 40" "isValidPrefix 16"
    by code_simp+
  obtain xs where xs: "calculateSubnets ''192.168.1.0'' 24 (Some 26) = Inr xs"
    using v p by (simp add: calculateSubnets_def isValidPrefix_def Let_def)
  from calculateSubnets_errors [of "''256.1.1.1''" 24 "Some 26"] nv
  have 1: "calculateSubnets ''256.1.1.1'' 24 (Some 26) = Inl (Error ''Invalid IP address'')"
    by blast
  from calculateSubnets_errors [of "''192.168.1.0''" 33 "Some 26"] v p
  have 2: "calculateSubnets ''192.168.1.0'' 33 (Some 26) = Inl (Error ''Invalid base prefix'')"
    by blast
  from calculateSubnets_errors [of "''192.168.1.0''" 24 _ 40] v p
  have 3: "calculateSubnets ''192.168.1.0'' 24 (Some 40) = Inl (Error ''Invalid new prefix'')"
    by blast
  from calculateSubnets_errors [of "''192.168.1.0''" 24 _ 16] v p
  have 4: "calculateSubnets ''192.168.1.0'' 24 (Some 16) =
     Inl (Error ''New prefix must be larger than base prefix'')"
    by simp
  from calculateSubnets_errors [of "''192.168.1.0''" 24] v p
  have 5: "\<exists>s. calculateSubnets ''192.168.1.0'' 24 (Some 24) = Inr [s]"
    by blast
  from calculateSubnets_errors [of "''192.168.1.0''" 24 "Some 26" _ xs] xs
  have 6: "length xs = 4" by simp
  from 1 2 3 4 5 6 xs show ?thesis by blast
qed

section \<open>Validation of address texts\<close>

lemma isValidIP_of_octets:
  assumes x: "0 \<le> x" "x \<le> 255" and y: "0 \<le> y" "y \<le> 255"
    and z: "0 \<le> z" "z \<le> 255" and w: "0 \<le> w" "w \<le> 255"
  shows "isValidIP (toString x @ ''.'' @ toString y @ ''.'' @ toString z @ ''.'' @ toString w)"
proof -
  have "str_split CHR ''.'' (str_join ''.'' [toString x, toString y, toString z, toString w])
        = [toString x, toString y, toString z, toString w]"
    using x y z w by (intro str_split_join4 toString_no_dot)
  then have "str_split CHR ''.''
       (toString x @ ''.'' @ toString y @ ''.'' @ toString z @ ''.'' @ toString w)
        = [toString x, toString y, toString z, toString w]"
    by simp
  then show ?thesis
    using x y z w by (simp add: isValidIP_def parseInt_toString)
qed

lemma isValidIP_text:
  assumes "isValidIP ip"
  shows "\<exists>x y z w. 0 \<le> x \<and> x \<le> 255 \<and> 0 \<le> y \<and> y \<le> 255 \<and> 0 \<le> z \<and> z \<le> 255 \<and>
           0 \<le> w \<and> w \<le> 255 \<and>
           ip = toString x @ ''.'' @ toString y @ ''.'' @ toString z @ ''.'' @ toString w"
proof -
  from assms obtain x y z w where
    split: "str_split CHR ''.'' ip = [toString x, toString y, toString z, toString w]"
    and b: "0 \<le> x" "x \<le> 255" "0 \<le> y" "y \<le> 255" "0 \<le> z" "z \<le> 255" "0 \<le> w" "w \<le> 255"
    by (rule isValidIP_octets)
  have "ip = str_join ''.'' (str_split CHR ''.'' ip)"
    by (simp add: str_join_split)
  then have "ip = toString x @ ''.'' @ toString y @ ''.'' @ toString z @ ''.'' @ toString w"
    by (simp add: split)
  with b show ?thesis by blast
qed

lemma isValidIP_segments:
  "isValidIP ip \<longleftrightarrow>
     length (str_split CHR ''.'' ip) = 4 \<and>
     (\<forall>seg \<in> set (str_split CHR ''.'' ip).
        \<exists>n. parseInt seg = Some n \<and> 0 \<le> n \<and> n \<le> 255 \<and> toString n = seg)"
  by (auto simp: isValidIP_def Let_def list_all_iff split: option.splits)

text \<open>
  Claim C7. \<^verbatim>\<open>isValidIP\<close> accepts a text exactly when it splits at the dots into four
  segments, each of which parses as a decimal integer between 0 and 255 whose decimal
  rendering is the segment itself. Put differently, the accepted texts are exactly the
  canonical dotted quads. ``256.1.1.1'' and ``192.168.01.0'' are rejected, ``192.168.1.0''
  is accepted.
\<close>

theorem isValidIP_characterisation:
  "(isValidIP ip \<longleftrightarrow>
     length (str_split CHR ''.'' ip) = 4 \<and>
     (\<forall>seg \<in> set (str_split CHR ''.'' ip).
        \<exists>n. parseInt seg = Some n \<and> 0 \<le> n \<and> n \<le> 255 \<and> toString n = seg)) \<and>
   (isValidIP ip \<longleftrightarrow>
     (\<exists>x y z w. 0 \<le> x \<and> x \<le> 255 \<and> 0 \<le> y \<and> y \<le> 255 \<and> 0 \<le> z \<and> z \<le> 255 \<and>
        0 \<le> w \<and> w \<le> 255 \<and>
        ip = toString x @ ''.'' @ toString y @ ''.'' @ toString z @ ''.'' @ toString w)) \<and>
   \<not> isValidIP ''256.1.1.1'' \<and> isValidIP ''192.168.1.0'' \<and> \<not> isValidIP ''192.168.01.0''"
proof -
  have cases3: "\<not> isValidIP ''256.1.1.1''" "isValidIP ''192.168.1.0''" "\<not> isValidIP ''192.168.01.0''"
    by code_simp+
  have "isValidIP ip \<longleftrightarrow>
     (\<exists>x y z w. 0 \<le> x \<and> x \<le> 255 \<and> 0 \<le> y \<and> y \<le> 255 \<and> 0 \<le> z \<and> z \<le> 255 \<and>
        0 \<le> w \<and> w \<le> 255 \<and>
        ip = toString x @ ''.'' @ toString y @ ''.'' @ toString z @ ''.'' @ toString w)"
    using isValidIP_text isValidIP_of_octets by blast
  with cases3 isValidIP_segments [of ip] show ?thesis by blast
qed

theorem isValidIP_characterisation_witness:
  "isValidIP ''10.0.0.1'' \<and> length (str_split CHR ''.'' ''10.0.0.1'') = 4 \<and>
   (\<exists>x y z w. ''10.0.0.1'' = toString x @ ''.'' @ toString y @ ''.'' @ toString z @ ''.'' @ toString w)"
proof -
  have v: "isValidIP ''10.0.0.1''" by code_simp
  from isValidIP_characterisation [of "''10.0.0.1''"] v show ?thesis by blast
qed

section \<open>Network classes\<close>

lemma first_octet_div:
  fixes x y z w :: int
  assumes "0 \<le> y" "y \<le> 255" "0 \<le> z" "z \<le> 255" "0 \<le> w" "w \<le> 255"
  shows "(x * 16777216 + y * 65536 + z * 256 + w) div 16777216 = x"
proof -
  define r where "r = y * 65536 + z * 256 + w"
  have r: "0 \<le> r" "r < 16777216" using assms by (simp_all add: r_def)
  have "(x * 16777216 + r) div 16777216 = x"
    using r by simp
  then show ?thesis by (simp add: r_def add.assoc)
qed

text \<open>
  Claim C8, as amended. For a valid address the class depends on the first octet \<open>n\<close> alone
  (the number printed before the first dot, which is the top byte of the address integer):
  1 to 126 gives \<^verbatim>\<open>A\<close>, 128 to 191 gives \<^verbatim>\<open>B\<close>, 192 to 223 gives \<^verbatim>\<open>C\<close>, 224 to 239
  gives \<^verbatim>\<open>D (Multicast)\<close>, 240 to 255 gives \<^verbatim>\<open>E (Reserved)\<close>, and 0 and 127 give
  \<^verbatim>\<open>Unknown\<close>.
\<close>

theorem network_class_by_first_octet:
  assumes "isValidIP ip"
  shows "\<exists>n rest. str_split CHR ''.'' ip = toString n # rest \<and>
           n = ipToInt ip div 16777216 \<and> 0 \<le> n \<and> n \<le> 255 \<and>
           (1 \<le> n \<and> n \<le> 126 \<longrightarrow> getNetworkClass ip = ''A'') \<and>
           (128 \<le> n \<and> n \<le> 191 \<longrightarrow> getNetworkClass ip = ''B'') \<and>
           (192 \<le> n \<and> n \<le> 223 \<longrightarrow> getNetworkClass ip = ''C'') \<and>
           (224 \<le> n \<and> n \<le> 239 \<longrightarrow> getNetworkClass ip = ''D (Multicast)'') \<and>
           (240 \<le> n \<and> n \<le> 255 \<longrightarrow> getNetworkClass ip = ''E (Reserved)'') \<and>
           (n = 0 \<or> n = 127 \<longrightarrow> getNetworkClass ip = ''Unknown'')"
proof -
  from assms obtain x y z w where
    split: "str_split CHR ''.'' ip = [toString x, toString y, toString z, toString w]"
    and b: "0 \<le> x" "x \<le> 255" "0 \<le> y" "y \<le> 255" "0 \<le> z" "z \<le> 255" "0 \<le> w" "w \<le> 255"
    by (rule isValidIP_octets)
  have int: "ipToInt ip div 16777216 = x"
    using b by (simp only: ipToInt_octets [OF split b] first_octet_div)
  have cls: "getNetworkClass ip =
     (if x \<ge> 1 \<and> x \<le> 126 then ''A''
      else if x \<ge> 128 \<and> x \<le> 191 then ''B''
      else if x \<ge> 192 \<and> x \<le> 223 then ''C''
      else if x \<ge> 224 \<and> x \<le> 239 then ''D (Multicast)''
      else if x \<ge> 240 \<and> x \<le> 255 then ''E (Reserved)''
      else ''Unknown'')"
    using b by (simp add: getNetworkClass_def split parseInt_toString)
  have "str_split CHR ''.'' ip = toString x # [toString y, toString z, toString w] \<and>
           x = ipToInt ip div 16777216 \<and> 0 \<le> x \<and> x \<le> 255 \<and>
           (1 \<le> x \<and> x \<le> 126 \<longrightarrow> getNetworkClass ip = ''A'') \<and>
           (128 \<le> x \<and> x \<le> 191 \<longrightarrow> getNetworkClass ip = ''B'') \<and>
           (192 \<le> x \<and> x \<le> 223 \<longrightarrow> getNetworkClass ip = ''C'') \<and>
           (224 \<le> x \<and> x \<le> 239 \<longrightarrow> getNetworkClass ip = ''D (Multicast)'') \<and>
           (240 \<le> x \<and> x \<le> 255 \<longrightarrow> getNetworkClass ip = ''E (Reserved)'') \<and>
           (x = 0 \<or> x = 127 \<longrightarrow> getNetworkClass ip = ''Unknown'')"
    using b(1,2) by (auto simp: split int cls)
  then show ?thesis by blast
qed

theorem network_class_by_first_octet_witness:
  "isValidIP ''10.0.0.1'' \<and> getNetworkClass ''10.0.0.1'' = ''A'' \<and>
   isValidIP ''224.0.0.1'' \<and> getNetworkClass ''224.0.0.1'' = ''D (Multicast)'' \<and>
   isValidIP ''127.0.0.1'' \<and> getNetworkClass ''127.0.0.1'' = ''Unknown''"
proof -
  have v: "isValidIP ''10.0.0.1''" "isValidIP ''224.0.0.1''" "isValidIP ''127.0.0.1''"
    by code_simp+
  have n: "ipToInt ''10.0.0.1'' div 16777216 = 10" "ipToInt ''224.0.0.1'' div 16777216 = 224"
    "ipToInt ''127.0.0.1'' div 16777216 = 127"
    by code_simp+
  from network_class_by_first_octet [OF v(1)] n(1)
  have 1: "getNetworkClass ''10.0.0.1'' = ''A''" by auto
  from network_class_by_first_octet [OF v(2)] n(2)
  have 2: "getNetworkClass ''224.0.0.1'' = ''D (Multicast)''" by auto
  from network_class_by_first_octet [OF v(3)] n(3)
  have 3: "getNetworkClass ''127.0.0.1'' = ''Unknown''" by auto
  from v 1 2 3 show ?thesis by simp
qed

text \<open>The values for the classes D and E are not the bare letters.\<close>

theorem network_class_D_counterexample:
  "isValidIP ''224.0.0.1'' \<and> getNetworkClass ''224.0.0.1'' \<noteq> ''D'' \<and>
   isValidIP ''240.0.0.1'' \<and> getNetworkClass ''240.0.0.1'' \<noteq> ''E''"
  by code_simp

section \<open>Host counts and usable range\<close>

lemma subnet_at_usable:
  "firstUsable (subnet_at b s p i) = getFirstUsable (networkAddress (subnet_at b s p i)) \<and>
   lastUsable (subnet_at b s p i) = getLastUsable (broadcastAddress (subnet_at b s p i))"
  by (simp add: subnet_at_def Let_def)

lemma calculateSubnets_usable:
  assumes "calculateSubnets ip b t = Inr xs" and "s \<in> set xs"
  shows "firstUsable s = getFirstUsable (networkAddress s) \<and>
         lastUsable s = getLastUsable (broadcastAddress s)"
proof (cases "t = None \<or> t = Some b")
  case True
  with assms show ?thesis
    by (auto simp: calculateSubnets_def Let_def split: if_splits)
next
  case False
  with assms(1) have "xs = map (subnet_at (ipToInt (getNetworkAddress ip b))
      (Math_pow 2 (32 - the t)) (the t)) [0..Math_pow 2 (the t - b) - 1]"
    by (auto simp: calculateSubnets_def Let_def calculateSubnets_loop_map split: if_splits)
  with assms(2) show ?thesis
    by (auto simp: subnet_at_usable)
qed

lemma getFirstUsable_int:
  "ipToInt (getFirstUsable a) = (if ipToInt a = 4294967295 then 0 else ipToInt a + 1)"
  using ipToInt_range [of a]
  by (simp add: getFirstUsable_def js_ushr_0 ipToInt_intToIP)

lemma getLastUsable_int:
  "ipToInt (getLastUsable a) = (if ipToInt a = 0 then 4294967295 else ipToInt a - 1)"
  using ipToInt_range [of a]
  by (simp add: getLastUsable_def js_ushr_0 ipToInt_intToIP)

text \<open>
  For a prefix \<open>p\<close> from 0 to 32, \<^verbatim>\<open>getUsableHosts\<close> is 0 from 31 on and
  \<open>2 ^ (32 - p) - 2\<close> below, \<^verbatim>\<open>getTotalAddresses\<close> is \<open>2 ^ (32 - p)\<close>, and up to 30 the former
  is the latter minus 2. In every subnet that \<^verbatim>\<open>calculateSubnets\<close> returns, the first
  usable address is the network address plus one and the last usable address is the
  broadcast address minus one, both modulo \<open>2 ^ 32\<close>; when the base prefix is at least 1
  and the prefix of the subnet at most 31, nothing wraps around and they are the network
  address plus one and the broadcast address minus one.
\<close>

lemma usable_hosts_and_range:
  "(0 \<le> p \<and> p \<le> 32 \<longrightarrow>
      getUsableHosts p = (if p \<ge> 31 then 0 else 2 ^ nat (32 - p) - 2) \<and>
      getTotalAddresses p = 2 ^ nat (32 - p) \<and>
      (p \<le> 30 \<longrightarrow> getUsableHosts p = getTotalAddresses p - 2)) \<and>
   (calculateSubnets ip b t = Inr xs \<longrightarrow>
      (\<forall>s \<in> set xs.
         ipToInt (firstUsable s) = (ipToInt (networkAddress s) + 1) mod 4294967296 \<and>
         ipToInt (lastUsable s) = (ipToInt (broadcastAddress s) - 1) mod 4294967296 \<and>
         (ipToInt (networkAddress s) \<noteq> 4294967295 \<longrightarrow>
            ipToInt (firstUsable s) = ipToInt (networkAddress s) + 1) \<and>
         (ipToInt (broadcastAddress s) \<noteq> 0 \<longrightarrow>
            ipToInt (lastUsable s) = ipToInt (broadcastAddress s) - 1) \<and>
         (1 \<le> b \<and> prefix s \<le> 31 \<longrightarrow>
            ipToInt (firstUsable s) = ipToInt (networkAddress s) + 1 \<and>
            ipToInt (lastUsable s) = ipToInt (broadcastAddress s) - 1)))"
proof -
  have counts: "0 \<le> p \<and> p \<le> 32 \<longrightarrow>
      getUsableHosts p = (if p \<ge> 31 then 0 else 2 ^ nat (32 - p) - 2) \<and>
      getTotalAddresses p = 2 ^ nat (32 - p) \<and>
      (p \<le> 30 \<longrightarrow> getUsableHosts p = getTotalAddresses p - 2)"
    by (simp add: getUsableHosts_def getTotalAddresses_def Math_pow_def)
  have range: "ipToInt (firstUsable s) = (ipToInt (networkAddress s) + 1) mod 4294967296 \<and>
         ipToInt (lastUsable s) = (ipToInt (broadcastAddress s) - 1) mod 4294967296 \<and>
         (ipToInt (networkAddress s) \<noteq> 4294967295 \<longrightarrow>
            ipToInt (firstUsable s) = ipToInt (networkAddress s) + 1) \<and>
         (ipToInt (broadcastAddress s) \<noteq> 0 \<longrightarrow>
            ipToInt (lastUsable s) = ipToInt (broadcastAddress s) - 1) \<and>
         (1 \<le> b \<and> prefix s \<le> 31 \<longrightarrow>
            ipToInt (firstUsable s) = ipToInt (networkAddress s) + 1 \<and>
            ipToInt (lastUsable s) = ipToInt (broadcastAddress s) - 1)"
    if run: "calculateSubnets ip b t = Inr xs" and s: "s \<in> set xs" for s
  proof -
    from run s have fl: "firstUsable s = getFirstUsable (networkAddress s)"
      "lastUsable s = getLastUsable (broadcastAddress s)"
      by (simp_all add: calculateSubnets_usable)
    have f1: "ipToInt (firstUsable s) = (ipToInt (networkAddress s) + 1) mod 4294967296"
      by (simp add: fl getFirstUsable_def js_ushr_0 ipToInt_intToIP)
    have l1: "ipToInt (lastUsable s) = (ipToInt (broadcastAddress s) - 1) mod 4294967296"
      by (simp add: fl getLastUsable_def js_ushr_0 ipToInt_intToIP)
    have f2: "ipToInt (networkAddress s) \<noteq> 4294967295 \<longrightarrow>
            ipToInt (firstUsable s) = ipToInt (networkAddress s) + 1"
      by (simp add: fl getFirstUsable_int)
    have l2: "ipToInt (broadcastAddress s) \<noteq> 0 \<longrightarrow>
            ipToInt (lastUsable s) = ipToInt (broadcastAddress s) - 1"
      by (simp add: fl getLastUsable_int)
    have nw: "1 \<le> b \<and> prefix s \<le> 31 \<longrightarrow>
        ipToInt (networkAddress s) \<noteq> 4294967295 \<and> ipToInt (broadcastAddress s) \<noteq> 0"
      using calculateSubnets_no_wrap [OF run s] by blast
    from f1 l1 f2 l2 nw show ?thesis by blast
  qed
  from counts range show ?thesis by blast
qed

section \<open>The single-network case\<close>

text \<open>
  A \<^verbatim>\<open>null\<close> new prefix and a new prefix equal to the base prefix take the same branch:
  the two calls return the same one-element sequence.
\<close>

lemma single_network_same:
  assumes "isValidIP ip" and "isValidPrefix p"
  shows "calculateSubnets ip p None = calculateSubnets ip p (Some p) \<and>
         calculateSubnets ip p (Some p) =
           Inr [\<lparr> subnetNumber = 1,
                  networkAddress = getNetworkAddress ip p,
                  broadcastAddress = getBroadcastAddress ip p,
                  firstUsable = getFirstUsable (getNetworkAddress ip p),
                  lastUsable = getLastUsable (getBroadcastAddress ip p),
                  usableHosts = getUsableHosts p,
                  subnetMask = prefixToMask p,
                  prefix = p,
                  totalAddresses = getTotalAddresses p \<rparr>]"
  using assms by (simp add: calculateSubnets_def Let_def)

text \<open>
  For a prefix \<open>p\<close> from 1 to 31 that one subnet is the base network: it starts at the
  address with its last \<open>32 - p\<close> bits cleared and ends \<open>2 ^ (32 - p) - 1\<close> later, its usable
  range lies one inside on either side, and its counts and mask are those of \<open>p\<close>.
\<close>

lemma single_network_fields:
  assumes ip: "isValidIP ip" and p: "1 \<le> p" "p \<le> 31"
  shows "\<exists>s. calculateSubnets ip p None = Inr [s] \<and>
           calculateSubnets ip p (Some p) = Inr [s] \<and>
           subnetNumber s = 1 \<and> prefix s = p \<and>
           ipToInt (networkAddress s) = ipToInt ip - ipToInt ip mod 2 ^ nat (32 - p) \<and>
           ipToInt (broadcastAddress s) = ipToInt (networkAddress s) + 2 ^ nat (32 - p) - 1 \<and>
           ipToInt (firstUsable s) = ipToInt (networkAddress s) + 1 \<and>
           ipToInt (lastUsable s) = ipToInt (broadcastAddress s) - 1 \<and>
           usableHosts s = (if p = 31 then 0 else 2 ^ nat (32 - p) - 2) \<and>
           totalAddresses s = 2 ^ nat (32 - p) \<and>
           ipToInt (subnetMask s) = 2 ^ 32 - 2 ^ nat (32 - p)"
proof -
  define s where "s = \<lparr> subnetNumber = 1,
      networkAddress = getNetworkAddress ip p,
      broadcastAddress = getBroadcastAddress ip p,
      firstUsable = getFirstUsable (getNetworkAddress ip p),
      lastUsable = getLastUsable (getBroadcastAddress ip p),
      usableHosts = getUsableHosts p,
      subnetMask = prefixToMask p,
      prefix = p,
      totalAddresses = getTotalAddresses p \<rparr>"
  have p32: "p \<le> 32" using p by simp
  have run: "calculateSubnets ip p None = Inr [s]" "calculateSubnets ip p (Some p) = Inr [s]"
    using ip p by (simp_all add: calculateSubnets_def isValidPrefix_def Let_def s_def)
  have net: "ipToInt (networkAddress s) = ipToInt ip - ipToInt ip mod 2 ^ nat (32 - p)"
    using base_network_bounds(3) [OF p(1) p32, of ip] by (simp add: s_def)
  have bc: "ipToInt (broadcastAddress s) = ipToInt (networkAddress s) + 2 ^ nat (32 - p) - 1"
    using getBroadcastAddress_top [OF p, of ip] by (simp add: s_def)
  have nw: "ipToInt (getNetworkAddress ip p) \<noteq> 4294967295"
    "ipToInt (getBroadcastAddress ip p) \<noteq> 0"
    using p by (rule single_network_no_wrap)+
  have first: "ipToInt (firstUsable s) = ipToInt (networkAddress s) + 1"
    using nw(1) by (simp add: s_def getFirstUsable_int)
  have last: "ipToInt (lastUsable s) = ipToInt (broadcastAddress s) - 1"
    using nw(2) by (simp add: s_def getLastUsable_int)
  have counts: "usableHosts s = (if p = 31 then 0 else 2 ^ nat (32 - p) - 2)"
    "totalAddresses s = 2 ^ nat (32 - p)"
    using p by (simp_all add: s_def getUsableHosts_def getTotalAddresses_def Math_pow_def)
  have mask: "ipToInt (subnetMask s) = 2 ^ 32 - 2 ^ nat (32 - p)"
    using prefixToMask_int [OF p(1) p32] by (simp add: s_def)
  have "subnetNumber s = 1" "prefix s = p" by (simp_all add: s_def)
  with run net bc first last counts mask show ?thesis by blast
qed

section \<open>Shift counts of 32\<close>

text \<open>
  JavaScript takes a shift count modulo 32, so \<^verbatim>\<open>0xFFFFFFFF << 32\<close> and
  \<^verbatim>\<open>0xFFFFFFFF >>> 32\<close> leave all 32 bits set. The engine shifts by \<open>32 - prefix\<close> for
  the network mask and by \<open>prefix\<close> for the host mask, so the mask of prefix 0 and the host
  mask of prefix 32 come out as all ones instead of all zeros. The lemmas
  \<open>prefixToMask_bits\<close>, \<open>getBroadcastAddress_or\<close>, \<open>calculateSubnets_split\<close>,
  \<open>single_network_fields\<close> and \<open>usable_hosts_and_range\<close> above cover the other prefixes;
  the evaluations below are the cases they leave out.
\<close>

text \<open>
  Claim C2, at prefix 0. \<^verbatim>\<open>prefixToMask(0)\<close> is 255.255.255.255, not 0.0.0.0; the masks of
  the prefixes 32 and 24 are as expected.
\<close>

theorem prefixToMask_zero:
  "prefixToMask 0 = ''255.255.255.255'' \<and> prefixToMask 0 \<noteq> ''0.0.0.0'' \<and>
   js_shl 4294967295 (32 - 0) = - 1 \<and>
   prefixToMask 32 = ''255.255.255.255'' \<and> prefixToMask 24 = ''255.255.255.0''"
  by code_simp

text \<open>
  Claim C3, at prefix 32. \<^verbatim>\<open>getBroadcastAddress("192.168.1.5", 32)\<close> is 255.255.255.255,
  while the network address is 192.168.1.5: the broadcast address is not the network
  address with the (empty) host part set.
\<close>

theorem broadcast_of_prefix_32:
  "isValidIP ''192.168.1.5'' \<and>
   getNetworkAddress ''192.168.1.5'' 32 = ''192.168.1.5'' \<and>
   getBroadcastAddress ''192.168.1.5'' 32 = ''255.255.255.255'' \<and>
   js_ushr 4294967295 32 = 4294967295 \<and>
   ipToInt (getBroadcastAddress ''192.168.1.5'' 32)
     \<noteq> ipToInt (getNetworkAddress ''192.168.1.5'' 32) OR (2 ^ (32 - 32) - 1)"
  by code_simp

text \<open>
  Claim C1, at base prefix 0. \<^verbatim>\<open>calculateSubnets("192.168.1.0", 0, 1)\<close> starts from
  192.168.1.0 instead of 0.0.0.0, and its second subnet wraps around to 64.168.1.0: the
  network addresses are not ascending and the second one is not the first plus the block
  size.
\<close>

theorem split_of_prefix_0:
  "calculateSubnets ''192.168.1.0'' 0 (Some 1) =
     Inr [\<lparr> subnetNumber = 1, networkAddress = ''192.168.1.0'',
            broadcastAddress = ''64.168.0.255'', firstUsable = ''192.168.1.1'',
            lastUsable = ''64.168.0.254'', usableHosts = 2147483646,
            subnetMask = ''128.0.0.0'', prefix = 1, totalAddresses = 2147483648 \<rparr>,
          \<lparr> subnetNumber = 2, networkAddress = ''64.168.1.0'',
            broadcastAddress = ''192.168.0.255'', firstUsable = ''64.168.1.1'',
            lastUsable = ''192.168.0.254'', usableHosts = 2147483646,
            subnetMask = ''128.0.0.0'', prefix = 1, totalAddresses = 2147483648 \<rparr>] \<and>
   getNetworkAddress ''192.168.1.0'' 0 = ''192.168.1.0'' \<and>
   ipToInt ''64.168.1.0'' \<noteq> ipToInt (getNetworkAddress ''192.168.1.0'' 0) + (2 - 1) * 2 ^ (32 - 1) \<and>
   ipToInt ''64.168.1.0'' < ipToInt ''192.168.1.0''"
  by code_simp

text \<open>
  Claim C9, at the prefixes 0 and 32. \<^verbatim>\<open>calculateSubnets("10.1.2.3", 0, null)\<close> and
  \<^verbatim>\<open>calculateSubnets("10.1.2.3", 0, 0)\<close> return the same single subnet, but it does not
  carry the fields of the base network 0.0.0.0/0: its network address is 10.1.2.3 and its
  mask 255.255.255.255. \<^verbatim>\<open>calculateSubnets("192.168.1.5", 32, null)\<close> carries the
  broadcast address 255.255.255.255 for the network 192.168.1.5/32.
\<close>

theorem single_network_of_prefix_0:
  "calculateSubnets ''10.1.2.3'' 0 None =
     Inr [\<lparr> subnetNumber = 1, networkAddress = ''10.1.2.3'',
            broadcastAddress = ''255.255.255.255'', firstUsable = ''10.1.2.4'',
            lastUsable = ''255.255.255.254'', usableHosts = 4294967294,
            subnetMask = ''255.255.255.255'', prefix = 0, totalAddresses = 4294967296 \<rparr>] \<and>
   calculateSubnets ''10.1.2.3'' 0 (Some 0) = calculateSubnets ''10.1.2.3'' 0 None \<and>
   ipToInt ''10.1.2.3'' \<noteq> ipToInt ''10.1.2.3'' - ipToInt ''10.1.2.3'' mod 2 ^ 32 \<and>
   calculateSubnets ''192.168.1.5'' 32 None =
     Inr [\<lparr> subnetNumber = 1, networkAddress = ''192.168.1.5'',
            broadcastAddress = ''255.255.255.255'', firstUsable = ''192.168.1.6'',
            lastUsable = ''255.255.255.254'', usableHosts = 0,
            subnetMask = ''255.255.255.255'', prefix = 32, totalAddresses = 1 \<rparr>] \<and>
   ipToInt ''255.255.255.255'' \<noteq> ipToInt ''192.168.1.5'' + 2 ^ (32 - 32) - 1"
  by code_simp

text \<open>
  Claim C5, at base prefix 0. The host counts are as claimed, but the first usable address
  is not the network address plus one: \<^verbatim>\<open>calculateSubnets("255.255.255.255", 0, null)\<close>
  keeps 255.255.255.255 as the network address of a /0 with 4294967294 usable hosts, and
  its first usable address wraps around to 0.0.0.0; so does the first /1 of the same
  base.
\<close>

theorem usable_range_of_prefix_0:
  "getUsableHosts 0 = getTotalAddresses 0 - 2 \<and>
   calculateSubnets ''255.255.255.255'' 0 None =
     Inr [\<lparr> subnetNumber = 1, networkAddress = ''255.255.255.255'',
            broadcastAddress = ''255.255.255.255'', firstUsable = ''0.0.0.0'',
            lastUsable = ''255.255.255.254'', usableHosts = 4294967294,
            subnetMask = ''255.255.255.255'', prefix = 0, totalAddresses = 4294967296 \<rparr>] \<and>
   calculateSubnets ''255.255.255.255'' 0 (Some 1) =
     Inr [\<lparr> subnetNumber = 1, networkAddress = ''255.255.255.255'',
            broadcastAddress = ''127.255.255.254'', firstUsable = ''0.0.0.0'',
            lastUsable = ''127.255.255.253'', usableHosts = 2147483646,
            subnetMask = ''128.0.0.0'', prefix = 1, totalAddresses = 2147483648 \<rparr>,
          \<lparr> subnetNumber = 2, networkAddress = ''127.255.255.255'',
            broadcastAddress = ''255.255.255.254'', firstUsable = ''128.0.0.0'',
            lastUsable = ''255.255.255.253'', usableHosts = 2147483646,
            subnetMask = ''128.0.0.0'', prefix = 1, totalAddresses = 2147483648 \<rparr>] \<and>
   ipToInt ''0.0.0.0'' \<noteq> ipToInt ''255.255.255.255'' + 1"
  by code_simp

end
